theory Spec2Isabelle
  imports Complex_Main
begin

section \<open>Python floats\<close>

text \<open>
  Forces, capacities, masses and grades are Python floats (IEEE 754 doubles). A finite
  double is a real number, and comparing two doubles is comparing these reals; but the
  result of an arithmetic operation is the exact result rounded to a double. The
  rounding is a parameter of the whole development: \<open>rnd R x\<close> is the double that the
  real \<open>x\<close> is rounded to, \<open>sq R x\<close> is the double that \<open>x ** 2\<close> returns when it is
  in range, and \<open>fmax R\<close> is the largest finite double. Addition, subtraction,
  multiplication, division and \<open>math.sqrt\<close> are correctly rounded. The model is of
  finite doubles: an operation other than \<open>**\<close> whose result would exceed \<open>fmax R\<close>
  gives an infinity in Python, and such runs are outside it.

  A result of \<open>None\<close> (no split exists) is the HOL value \<open>None\<close>; a raised exception
  is \<open>Inl\<close> of the error. Lengths of subcuts are natural numbers, \<open>max_parts\<close> is a
  Python integer and may be negative. The source's parameter \<open>cut\<close> is written \<open>cutf\<close>
  and its parameter \<open>power\<close> is written \<open>pwr\<close>, since \<open>cut\<close> and \<open>power\<close> are constants
  of HOL.
\<close>

datatype py_error = AssertionError | ValueError | ZeroDivisionError | OverflowError

record fp =
  rnd :: "real \<Rightarrow> real"
  sq :: "real \<Rightarrow> real"
  fmax :: real

definition fadd :: "fp \<Rightarrow> real \<Rightarrow> real \<Rightarrow> real" where
  "fadd R x y = rnd R (x + y)"

definition fsub :: "fp \<Rightarrow> real \<Rightarrow> real \<Rightarrow> real" where
  "fsub R x y = rnd R (x - y)"

definition fmul :: "fp \<Rightarrow> real \<Rightarrow> real \<Rightarrow> real" where
  "fmul R x y = rnd R (x * y)"

text \<open>The quotient of two floats; the callers test the divisor for zero first.\<close>

definition fdiv :: "fp \<Rightarrow> real \<Rightarrow> real \<Rightarrow> real" where
  "fdiv R x y = rnd R (x / y)"

text \<open>\<open>math.sqrt\<close> of a float that is not negative.\<close>

definition fsqrt :: "fp \<Rightarrow> real \<Rightarrow> real" where
  "fsqrt R x = rnd R (sqrt x)"

text \<open>\<open>x ** 2\<close>: float exponentiation raises \<open>OverflowError\<close> when the result is out of range.\<close>

definition py_pow2 :: "fp \<Rightarrow> real \<Rightarrow> py_error + real" where
  "py_pow2 R x = (if fmax R < \<bar>sq R x\<bar> then Inl OverflowError else Inr (sq R x))"

text \<open>
  Python's \<open>sum\<close>: it starts from 0 and adds the items from left to right, rounding after
  every addition.
\<close>

definition py_sum :: "fp \<Rightarrow> real list \<Rightarrow> real" where
  "py_sum R xs = foldl (fadd R) 0 xs"

text \<open>
  What the proofs below need of the rounding, and IEEE 754 rounding to nearest provides:
  it is monotone, it keeps 0 and 1, a double is rounded to itself, and a square is a
  double that is not negative.
\<close>

definition rounding :: "fp \<Rightarrow> bool" where
  "rounding R \<longleftrightarrow>
     (\<forall>x y. x \<le> y \<longrightarrow> rnd R x \<le> rnd R y) \<and> rnd R 0 = 0 \<and> rnd R 1 = 1 \<and>
     (\<forall>x. rnd R (rnd R x) = rnd R x) \<and> (\<forall>x. 0 \<le> sq R x \<and> rnd R (sq R x) = sq R x)"

text \<open>
  The arithmetic without rounding: one rounding that satisfies \<open>rounding\<close>, used to
  evaluate the examples. On integers of small magnitude it agrees with the arithmetic of
  doubles.
\<close>

definition exact_fp :: fp where
  "exact_fp = \<lparr>rnd = (\<lambda>x. x), sq = (\<lambda>x. x * x), fmax = 10 ^ 308\<rparr>"

section \<open>Hill-climbing splits: the splitting engine of \<open>splitter.py\<close>\<close>

type_synonym split = "nat list"

subsection \<open>Fastsplit\<close>

text \<open>
  The inner loop \<open>for this_len in range(len(cut), 0, -1)\<close>: the last argument is the
  value of \<open>this_len\<close> that is tried next; the result is the length at which the loop
  breaks, or \<open>None\<close> when the loop runs to its \<open>else\<close> clause.
\<close>

fun fastsplit_for :: "fp \<Rightarrow> real \<Rightarrow> real list \<Rightarrow> nat \<Rightarrow> nat option" where
  "fastsplit_for R capacity cutf 0 = None"
| "fastsplit_for R capacity cutf (Suc n) =
     (if fadd R capacity (py_sum R (take (Suc n) cutf)) > 0 then Some (Suc n)
      else fastsplit_for R capacity cutf n)"

lemma fastsplit_for_pos: "fastsplit_for R capacity cutf n = Some l \<Longrightarrow> 0 < l"
  by (induction n) (auto split: if_splits)

text \<open>The loop \<open>while len(cut) > 0\<close>, with the list \<open>splits\<close> built so far.\<close>

function fastsplit_while ::
  "fp \<Rightarrow> real \<Rightarrow> real list \<Rightarrow> bool \<Rightarrow> split \<Rightarrow> split option" where
  "fastsplit_while R capacity cutf collect_net splits =
     (if length cutf > 0 then
        (case fastsplit_for R capacity cutf (length cutf) of
           Some this_len \<Rightarrow>
             fastsplit_while R
               (if collect_net
                then fadd R capacity (py_sum R (filter (\<lambda>x. x > 0) (take this_len cutf)))
                else capacity)
               (drop this_len cutf) collect_net (splits @ [this_len])
         | None \<Rightarrow> None)
      else Some splits)"
  by pat_completeness auto
termination
  by (relation "measure (\<lambda>(R, capacity, cutf, collect_net, splits). length cutf)")
     (auto dest: fastsplit_for_pos)

definition fastsplit :: "fp \<Rightarrow> real \<Rightarrow> real list \<Rightarrow> bool \<Rightarrow> py_error + split option" where
  "fastsplit R capacity cutf collect_net =
     (if \<not> capacity > 0 then Inl AssertionError
      else Inr (fastsplit_while R capacity cutf collect_net []))"

subsection \<open>Smartsplit\<close>

text \<open>
  The loop \<open>for removed in reversed(this_cut)\<close>: the first argument is what is left of
  \<open>reversed(this_cut)\<close>, the second is \<open>this_len\<close>; the result is \<open>this_len\<close> after
  the loop.
\<close>

fun smartsplit_for :: "real list \<Rightarrow> nat \<Rightarrow> nat" where
  "smartsplit_for [] this_len = this_len"
| "smartsplit_for (removed # rest) this_len =
     (if removed > 0 then this_len - 1 else smartsplit_for rest (this_len - 1))"

lemma smartsplit_for_le: "smartsplit_for rs n \<le> n"
  by (induction rs arbitrary: n) (auto intro: le_trans [OF _ diff_le_self])

lemma smartsplit_for_less: "rs \<noteq> [] \<Longrightarrow> 0 < n \<Longrightarrow> smartsplit_for rs n < n"
proof (cases rs)
  case Nil
  assume "rs \<noteq> []"
  with Nil show ?thesis by simp
next
  case (Cons r rest)
  assume "0 < n"
  have "smartsplit_for rest (n - 1) \<le> n - 1" by (rule smartsplit_for_le)
  with Cons \<open>0 < n\<close> show ?thesis by auto
qed

text \<open>
  \<open>smartsplit\<close> and its loop \<open>while this_len > 0\<close>. The loop's state is
  \<open>best_split\<close>, \<open>best_split_len\<close> and \<open>this_len\<close>. The source enters the loop only
  with a non-empty \<open>cut\<close>, which the loop never changes; the loop function returns at once
  on an empty cut, a state the source cannot be in, so that the recursion is total.
\<close>

function smartsplit :: "fp \<Rightarrow> real \<Rightarrow> real list \<Rightarrow> int \<Rightarrow> py_error + split option"
  and smartsplit_while ::
    "fp \<Rightarrow> real \<Rightarrow> real list \<Rightarrow> split option \<Rightarrow> int \<Rightarrow> nat \<Rightarrow> py_error + split option"
where
  "smartsplit R capacity cutf max_parts =
     (if \<not> capacity > 0 then Inl AssertionError
      else if length cutf = 0 then Inr (Some [])
      else if max_parts \<le> 0 then Inr None
      else if max_parts = 1 then
        (if fadd R capacity (py_sum R cutf) > 0 then Inr (Some [length cutf]) else Inr None)
      else smartsplit_while R capacity cutf None (max_parts + 1) (length cutf))"
| "smartsplit_while R capacity cutf best_split best_split_len this_len =
     (if \<not> this_len > 0 \<or> cutf = [] then Inr best_split
      else if fadd R capacity (py_sum R (take this_len cutf)) > 0 then
        (case smartsplit R capacity (drop this_len cutf) (best_split_len - 2) of
           Inl e \<Rightarrow> Inl e
         | Inr None \<Rightarrow>
             smartsplit_while R capacity cutf best_split best_split_len (this_len - 1)
         | Inr (Some rest) \<Rightarrow>
             (if int (length (this_len # rest)) < best_split_len then
                (if length (this_len # rest) = 1 then Inr (Some (this_len # rest))
                 else smartsplit_while R capacity cutf (Some (this_len # rest))
                        (int (length (this_len # rest)))
                        (smartsplit_for (rev (take this_len cutf)) this_len))
              else smartsplit_while R capacity cutf best_split best_split_len
                     (smartsplit_for (rev (take this_len cutf)) this_len)))
      else smartsplit_while R capacity cutf best_split best_split_len (this_len - 1))"
  by pat_completeness auto
termination
  by (relation "measures
        [\<lambda>x. case x of Inl (R, capacity, cutf, max_parts) \<Rightarrow> length cutf
                     | Inr (R, capacity, cutf, best_split, best_split_len, this_len) \<Rightarrow>
                         length cutf,
         \<lambda>x. case x of Inl _ \<Rightarrow> 1 | Inr _ \<Rightarrow> 0,
         \<lambda>x. case x of Inl _ \<Rightarrow> 0
                     | Inr (R, capacity, cutf, best_split, best_split_len, this_len) \<Rightarrow>
                         this_len]")
     (auto intro: smartsplit_for_less)

declare smartsplit.simps [simp del] smartsplit_while.simps [simp del]
declare fastsplit_while.simps [simp del]

subsection \<open>What the specification calls a feasible split\<close>

text \<open>
  The net force of every subcut that a split induces on a cut, as the code computes it:
  the running capacity plus the sum of the subcut's member forces, in floats. Under the
  collection rule (second argument) the sum of the strictly positive forces of a subcut
  is added to the capacity of the later subcuts.
\<close>

fun spec_net_forces :: "fp \<Rightarrow> bool \<Rightarrow> real \<Rightarrow> real list \<Rightarrow> split \<Rightarrow> real list" where
  "spec_net_forces R collect capacity cutf [] = []"
| "spec_net_forces R collect capacity cutf (l # ls) =
     fadd R capacity (py_sum R (take l cutf)) #
     spec_net_forces R collect
       (if collect then fadd R capacity (py_sum R (filter (\<lambda>x. x > 0) (take l cutf)))
        else capacity)
       (drop l cutf) ls"

text \<open>
  A split is feasible: its parts are positive, they sum to the length of the cut, and
  every subcut has a strictly positive net force.
\<close>

definition spec_feasible :: "fp \<Rightarrow> bool \<Rightarrow> real \<Rightarrow> real list \<Rightarrow> split \<Rightarrow> bool" where
  "spec_feasible R collect capacity cutf s \<longleftrightarrow>
     (\<forall>l \<in> set s. 0 < l) \<and> sum_list s = length cutf \<and>
     (\<forall>f \<in> set (spec_net_forces R collect capacity cutf s). 0 < f)"

section \<open>Rolling stock and the force model of \<open>stock.py\<close>\<close>

text \<open>
  The three concrete classes of rolling stock: \<open>Car\<close> (name, mass), \<open>TractiveCar\<close>
  (name, mass, tractive effort) and \<open>CarGroup\<close> (name, train). A \<open>Train\<close> holds a
  tuple of rolling stock and nothing else.
\<close>

datatype rolling_stock =
    Car string real
  | TractiveCar string real real
  | CarGroup string "rolling_stock list"

type_synonym train = "rolling_stock list"

text \<open>
  The properties \<open>mass\<close> and \<open>tractive_effort\<close> as the code computes them: a group
  and a train sum over their members with \<open>sum\<close>, in floats.
\<close>

fun py_mass :: "fp \<Rightarrow> rolling_stock \<Rightarrow> real" where
  "py_mass R (Car name m) = m"
| "py_mass R (TractiveCar name m t) = m"
| "py_mass R (CarGroup name tr) = py_sum R (map (py_mass R) tr)"

fun py_tractive_effort :: "fp \<Rightarrow> rolling_stock \<Rightarrow> real" where
  "py_tractive_effort R (Car name m) = 0"
| "py_tractive_effort R (TractiveCar name m t) = t"
| "py_tractive_effort R (CarGroup name tr) = py_sum R (map (py_tractive_effort R) tr)"

definition py_train_mass :: "fp \<Rightarrow> train \<Rightarrow> real" where
  "py_train_mass R tr = py_sum R (map (py_mass R) tr)"

definition py_train_tractive_effort :: "fp \<Rightarrow> train \<Rightarrow> real" where
  "py_train_tractive_effort R tr = py_sum R (map (py_tractive_effort R) tr)"

text \<open>
  The total mass and the total tractive effort of a unit and of a train: the sums of the
  members' values without rounding.
\<close>

fun mass :: "rolling_stock \<Rightarrow> real" where
  "mass (Car name m) = m"
| "mass (TractiveCar name m t) = m"
| "mass (CarGroup name tr) = sum_list (map mass tr)"

fun tractive_effort :: "rolling_stock \<Rightarrow> real" where
  "tractive_effort (Car name m) = 0"
| "tractive_effort (TractiveCar name m t) = t"
| "tractive_effort (CarGroup name tr) = sum_list (map tractive_effort tr)"

definition train_mass :: "train \<Rightarrow> real" where
  "train_mass tr = sum_list (map mass tr)"

definition train_tractive_effort :: "train \<Rightarrow> real" where
  "train_tractive_effort tr = sum_list (map tractive_effort tr)"

text \<open>
  \<open>starting_force\<close>: \<open>mass * (grade + 0.004) / math.sqrt(grade * grade + 1)\<close>, every
  operation rounded, on the mass given as first argument. The literal \<open>0.004\<close> is the
  double nearest to it. The divisor is at least 1 under any monotone rounding that keeps
  0 and 1 (lemma \<open>starting_force_divisor\<close>), so the division raises nothing.
\<close>

definition starting_force_of :: "fp \<Rightarrow> real \<Rightarrow> real \<Rightarrow> real" where
  "starting_force_of R m grade =
     fdiv R (fmul R m (fadd R grade (rnd R 0.004)))
       (fsqrt R (fadd R (fmul R grade grade) 1))"

definition starting_force :: "fp \<Rightarrow> train \<Rightarrow> real \<Rightarrow> real" where
  "starting_force R tr grade = starting_force_of R (py_train_mass R tr) grade"

text \<open>
  Python's float division raises \<open>ZeroDivisionError\<close> on a zero divisor, and
  \<open>math.sqrt\<close> raises \<open>ValueError\<close> on a negative argument. In \<open>maximum_grade\<close> the
  operands are evaluated from left to right: \<open>M ** 2\<close>, then inside the square root
  \<open>M ** 2\<close>, \<open>0.004 ** 2\<close> and \<open>F ** 2\<close>, then the square root, then the divisor and
  the division.
\<close>

definition starting_power :: "fp \<Rightarrow> train \<Rightarrow> real \<Rightarrow> py_error + real" where
  "starting_power R tr grade =
     (if py_train_tractive_effort R tr = 0 then Inl ZeroDivisionError
      else Inr (fdiv R (starting_force R tr grade) (py_train_tractive_effort R tr)))"

definition maximum_grade :: "fp \<Rightarrow> train \<Rightarrow> py_error + real" where
  "maximum_grade R tr =
     (let F = py_train_tractive_effort R tr; M = py_train_mass R tr in
      case py_pow2 R M of
        Inl e \<Rightarrow> Inl e
      | Inr m2 \<Rightarrow>
          (case py_pow2 R (rnd R 0.004) of
             Inl e \<Rightarrow> Inl e
           | Inr k2 \<Rightarrow>
               (case py_pow2 R F of
                  Inl e \<Rightarrow> Inl e
                | Inr f2 \<Rightarrow>
                    (let d = fsub R (fmul R m2 (fadd R k2 1)) f2 in
                     if d < 0 then Inl ValueError
                     else
                       (let num = fsub R (fmul R m2 (rnd R 0.004)) (fmul R F (fsqrt R d));
                            den = fsub R f2 m2
                        in if den = 0 then Inl ZeroDivisionError
                           else Inr (fdiv R num den))))))"

section \<open>The orchestrator and the materialization of \<open>splitter.py\<close>\<close>

text \<open>
  Modelled from the spec: the type \<open>Calculative\<close>, which \<open>splitter.py\<close> imports from
  \<open>stock.py\<close> and \<open>stock.py\<close> does not define. The specification says that every
  entity, a single piece of rolling stock as well as a train, exposes a mass, a tractive
  effort and a derived starting force on a grade; the starting force of a single piece
  is the formula of \<open>Train.starting_force\<close> on its own mass.
\<close>

datatype calculative = Stock rolling_stock | Consist train

fun calc_mass :: "calculative \<Rightarrow> real" where
  "calc_mass (Stock r) = mass r"
| "calc_mass (Consist tr) = train_mass tr"

fun calc_tractive_effort :: "calculative \<Rightarrow> real" where
  "calc_tractive_effort (Stock r) = tractive_effort r"
| "calc_tractive_effort (Consist tr) = train_tractive_effort tr"

fun py_calc_tractive_effort :: "fp \<Rightarrow> calculative \<Rightarrow> real" where
  "py_calc_tractive_effort R (Stock r) = py_tractive_effort R r"
| "py_calc_tractive_effort R (Consist tr) = py_train_tractive_effort R tr"

fun calc_starting_force :: "fp \<Rightarrow> calculative \<Rightarrow> real \<Rightarrow> real" where
  "calc_starting_force R (Stock r) grade = starting_force_of R (py_mass R r) grade"
| "calc_starting_force R (Consist tr) grade = starting_force R tr grade"

definition net_force_capacity :: "fp \<Rightarrow> calculative \<Rightarrow> real \<Rightarrow> real \<Rightarrow> real" where
  "net_force_capacity R x grade max_power =
     fsub R (fmul R (py_calc_tractive_effort R x) max_power) (calc_starting_force R x grade)"

text \<open>Python's \<open>max\<close> of a sequence: \<open>ValueError\<close> on an empty one.\<close>

fun py_max :: "real list \<Rightarrow> py_error + real" where
  "py_max [] = Inl ValueError"
| "py_max (x # xs) = Inr (fold (\<lambda>y m. if y > m then y else m) xs x)"

definition compute_split ::
  "fp \<Rightarrow> calculative \<Rightarrow> train \<Rightarrow> real \<Rightarrow> real \<Rightarrow> bool \<Rightarrow> py_error + split option" where
  "compute_split R pwr cutf grade max_power collect_net =
     (let p = net_force_capacity R pwr grade max_power;
          c = map (\<lambda>x. net_force_capacity R (Stock x) grade max_power) cutf
      in case py_max c of
           Inl e \<Rightarrow> Inl e
         | Inr m \<Rightarrow>
             if m \<le> 0 \<or> collect_net then fastsplit R p c True
             else smartsplit R p c (int (length cutf)))"






text \<open>
  \<open>power + train\<close>: \<open>RollingStock.__add__\<close> and \<open>Train.__add__\<close> both give the train
  of the left operand's units followed by the right operand's.
\<close>

fun add_train :: "calculative \<Rightarrow> train \<Rightarrow> calculative" where
  "add_train (Stock r) tr = Consist (r # tr)"
| "add_train (Consist a) tr = Consist (a @ tr)"

text \<open>\<open>itertools.accumulate(tu, initial=power)\<close>: one element more than \<open>tu\<close> has.\<close>

fun accumulate_power :: "calculative \<Rightarrow> train list \<Rightarrow> calculative list" where
  "accumulate_power pwr [] = [pwr]"
| "accumulate_power pwr (t # ts) = pwr # accumulate_power (add_train pwr t) ts"



section \<open>Properties of Fastsplit\<close>

lemma spec_feasible_Nil [simp]: "spec_feasible R collect capacity cutf [] \<longleftrightarrow> cutf = []"
  by (auto simp: spec_feasible_def)

lemma spec_feasible_Cons:
  "spec_feasible R collect capacity cutf (l # ls) \<longleftrightarrow>
     0 < l \<and> l \<le> length cutf \<and> 0 < fadd R capacity (py_sum R (take l cutf)) \<and>
     spec_feasible R collect
       (if collect then fadd R capacity (py_sum R (filter (\<lambda>x. x > 0) (take l cutf))) else capacity)
       (drop l cutf) ls"
  by (auto simp: spec_feasible_def)

lemma fastsplit_for_Some:
  "fastsplit_for R capacity cutf n = Some l \<Longrightarrow>
     0 < l \<and> l \<le> n \<and> 0 < fadd R capacity (py_sum R (take l cutf)) \<and>
     (\<forall>l'. l < l' \<and> l' \<le> n \<longrightarrow> \<not> 0 < fadd R capacity (py_sum R (take l' cutf)))"
proof (induction n)
  case 0
  then show ?case by simp
next
  case (Suc n)
  show ?case
  proof (cases "0 < fadd R capacity (py_sum R (take (Suc n) cutf))")
    case True
    with Suc.prems show ?thesis by auto
  next
    case False
    with Suc.prems have "fastsplit_for R capacity cutf n = Some l" by simp
    from Suc.IH [OF this] False show ?thesis
      by (auto simp: le_Suc_eq)
  qed
qed

lemma fastsplit_for_None:
  "fastsplit_for R capacity cutf n = None \<longleftrightarrow>
     (\<forall>l. 0 < l \<and> l \<le> n \<longrightarrow> \<not> 0 < fadd R capacity (py_sum R (take l cutf)))"
proof (induction n)
  case 0
  then show ?case by auto
next
  case (Suc n)
  show ?case
  proof (cases "0 < fadd R capacity (py_sum R (take (Suc n) cutf))")
    case True
    then have "\<not> (\<forall>l. 0 < l \<and> l \<le> Suc n \<longrightarrow> \<not> 0 < fadd R capacity (py_sum R (take l cutf)))"
      by (intro notI) (drule spec [of _ "Suc n"], simp)
    with True show ?thesis by simp
  next
    case False
    then show ?thesis using Suc.IH by (auto simp: le_Suc_eq)
  qed
qed

lemma fastsplit_for_longest:
  assumes "0 < l" "l \<le> n" "0 < fadd R capacity (py_sum R (take l cutf))"
    and "\<forall>l'. l < l' \<and> l' \<le> n \<longrightarrow> \<not> 0 < fadd R capacity (py_sum R (take l' cutf))"
  shows "fastsplit_for R capacity cutf n = Some l"
proof (cases "fastsplit_for R capacity cutf n")
  case None
  with assms show ?thesis by (simp add: fastsplit_for_None)
next
  case (Some k)
  from fastsplit_for_Some [OF Some] assms have "k = l"
    by (metis linorder_neqE_nat)
  with Some show ?thesis by simp
qed

lemma fastsplit_while_Nil [simp]: "fastsplit_while R capacity [] collect_net splits = Some splits"
  by (simp add: fastsplit_while.simps)

lemma fastsplit_while_app:
  "fastsplit_while R capacity cutf collect_net (a @ b) =
     map_option ((@) a) (fastsplit_while R capacity cutf collect_net b)"
proof (induction R capacity cutf collect_net b arbitrary: a rule: fastsplit_while.induct)
  case (1 R capacity cutf collect_net splits)
  show ?case
  proof (cases "length cutf > 0")
    case False
    then show ?thesis by simp
  next
    case True
    show ?thesis
    proof (cases "fastsplit_for R capacity cutf (length cutf)")
      case None
      with True show ?thesis
        by (simp add: fastsplit_while.simps [of R capacity cutf collect_net "a @ splits"]
            fastsplit_while.simps [of R capacity cutf collect_net splits])
    next
      case (Some l)
      from "1.IH" [OF True Some, of a] True Some show ?thesis
        by (simp add: fastsplit_while.simps [of R capacity cutf collect_net "a @ splits"]
            fastsplit_while.simps [of R capacity cutf collect_net splits])
    qed
  qed
qed

lemma fastsplit_while_unfold:
  "fastsplit_while R capacity cutf collect_net [] =
     (if cutf = [] then Some []
      else case fastsplit_for R capacity cutf (length cutf) of
             None \<Rightarrow> None
           | Some l \<Rightarrow>
               map_option ((#) l)
                 (fastsplit_while R
                    (if collect_net
                     then fadd R capacity (py_sum R (filter (\<lambda>x. x > 0) (take l cutf)))
                     else capacity)
                    (drop l cutf) collect_net []))"
proof -
  have "fastsplit_while R c d collect_net [l] = map_option ((#) l) (fastsplit_while R c d collect_net [])"
    for c d l
    using fastsplit_while_app [of R c d collect_net "[l]" "[]"]
    by (cases "fastsplit_while R c d collect_net []") simp_all
  then show ?thesis
    by (simp add: fastsplit_while.simps [of R capacity cutf collect_net "[]"] split: option.splits)
qed

lemma fastsplit_while_feasible:
  "fastsplit_while R capacity cutf collect_net [] = Some s \<Longrightarrow>
     spec_feasible R collect_net capacity cutf s"
proof (induction "length cutf" arbitrary: capacity cutf s rule: less_induct)
  case less
  show ?case
  proof (cases "cutf = []")
    case True
    with less.prems show ?thesis by (simp add: fastsplit_while_unfold)
  next
    case False
    with less.prems obtain l rest where
      l: "fastsplit_for R capacity cutf (length cutf) = Some l"
      and rest: "fastsplit_while R
                    (if collect_net
                     then fadd R capacity (py_sum R (filter (\<lambda>x. x > 0) (take l cutf)))
                     else capacity)
                    (drop l cutf) collect_net [] = Some rest"
      and s: "s = l # rest"
      by (subst (asm) fastsplit_while_unfold) (auto split: option.splits)
    from fastsplit_for_Some [OF l] have l': "0 < l" "l \<le> length cutf"
      "0 < fadd R capacity (py_sum R (take l cutf))" by auto
    with False have "length (drop l cutf) < length cutf" by simp
    from less.hyps [OF this rest] l' s show ?thesis
      by (simp add: spec_feasible_Cons)
  qed
qed

section \<open>Correctness of Smartsplit\<close>

lemma spec_feasible_nonempty:
  "spec_feasible R collect capacity cutf q \<Longrightarrow> cutf \<noteq> [] \<Longrightarrow> q \<noteq> []"
  by auto


text \<open>
  Under a monotone rounding that keeps 0, a sum does not get smaller when a leading item
  that is not positive is left out, nor when items are replaced by larger ones.
\<close>

lemma rounding_mono: "rounding R \<Longrightarrow> x \<le> y \<Longrightarrow> rnd R x \<le> rnd R y"
  by (simp add: rounding_def)

lemma rounding_zero: "rounding R \<Longrightarrow> rnd R 0 = 0"
  by (simp add: rounding_def)













text \<open>What \<open>smartsplit\<close> returns is feasible, whatever the rounding is.\<close>

lemma smartsplit_feasible_aux:
  "0 < capacity \<Longrightarrow> smartsplit R capacity cutf max_parts = Inr (Some s) \<Longrightarrow>
     spec_feasible R False capacity cutf s"
  "0 < capacity \<Longrightarrow> this_len \<le> length cutf \<Longrightarrow>
     (\<forall>b. best_split = Some b \<longrightarrow> spec_feasible R False capacity cutf b) \<Longrightarrow>
     smartsplit_while R capacity cutf best_split best_split_len this_len = Inr (Some s') \<Longrightarrow>
     spec_feasible R False capacity cutf s'"
proof (induction R capacity cutf max_parts and R capacity cutf best_split best_split_len this_len
    arbitrary: s and s' rule: smartsplit_smartsplit_while.induct)
  case (1 R capacity cutf max_parts)
  show ?case
  proof (cases "cutf = [] \<or> max_parts \<le> 1")
    case True
    with "1.prems" show ?thesis
      by (auto simp: smartsplit.simps [of R capacity cutf] spec_feasible_Cons split: if_splits)
  next
    case False
    with "1.prems" have w: "smartsplit_while R capacity cutf None (max_parts + 1) (length cutf)
        = Inr (Some s)"
      by (simp add: smartsplit.simps [of R capacity cutf] split: if_splits)
    from False "1.prems" show ?thesis
      by (intro "1.IH" [OF _ _ _ _ _ _ _ w]) simp_all
  qed
next
  case (2 R capacity cutf best_split best_split_len this_len)
  note pos = "2.prems"(1) and le = "2.prems"(2) and best = "2.prems"(3) and res = "2.prems"(4)
  show ?case
  proof (cases "\<not> this_len > 0 \<or> cutf = []")
    case True
    with res best show ?thesis
      by (simp add: smartsplit_while.simps [of R capacity cutf])
  next
    case run: False
    have down: "this_len - 1 \<le> length cutf" using le by simp
    have nxt: "smartsplit_for (rev (take this_len cutf)) this_len \<le> length cutf"
      using le smartsplit_for_le [of "rev (take this_len cutf)" this_len] by simp
    show ?thesis
    proof (cases "fadd R capacity (py_sum R (take this_len cutf)) > 0")
      case False
      with run res have "smartsplit_while R capacity cutf best_split best_split_len (this_len - 1)
          = Inr (Some s')"
        by (simp add: smartsplit_while.simps [of R capacity cutf _ _ this_len])
      from "2.IH"(5) [OF run False pos down best this] show ?thesis .
    next
      case net: True
      show ?thesis
      proof (cases "smartsplit R capacity (drop this_len cutf) (best_split_len - 2)")
        case (Inl e)
        with run net res show ?thesis
          by (simp add: smartsplit_while.simps [of R capacity cutf _ _ this_len])
      next
        case (Inr r)
        show ?thesis
        proof (cases r)
          case None
          with Inr run net res
          have "smartsplit_while R capacity cutf best_split best_split_len (this_len - 1)
              = Inr (Some s')"
            by (simp add: smartsplit_while.simps [of R capacity cutf _ _ this_len])
          from "2.IH"(2) [OF run net Inr None pos down best this] show ?thesis .
        next
          case (Some rest)
          from "2.IH"(1) [OF run net pos] Inr Some
          have f_rest: "spec_feasible R False capacity (drop this_len cutf) rest" by simp
          with net run le have f_split: "spec_feasible R False capacity cutf (this_len # rest)"
            by (simp add: spec_feasible_Cons)
          show ?thesis
          proof (cases "int (length (this_len # rest)) < best_split_len")
            case lt: True
            show ?thesis
            proof (cases "length (this_len # rest) = 1")
              case True
              with Inr Some run net res lt have "s' = this_len # rest"
                by (simp add: smartsplit_while.simps [of R capacity cutf _ _ this_len])
              with f_split show ?thesis by simp
            next
              case False
              with Inr Some run net res lt
              have w: "smartsplit_while R capacity cutf (Some (this_len # rest))
                  (int (length (this_len # rest)))
                  (smartsplit_for (rev (take this_len cutf)) this_len) = Inr (Some s')"
                by (simp add: smartsplit_while.simps [of R capacity cutf _ _ this_len])
              from f_split have "\<forall>b. Some (this_len # rest) = Some b \<longrightarrow>
                  spec_feasible R False capacity cutf b" by simp
              from "2.IH"(3) [OF run net Inr Some lt False pos nxt this w] show ?thesis .
            qed
          next
            case False
            with Inr Some run net res
            have w: "smartsplit_while R capacity cutf best_split best_split_len
                  (smartsplit_for (rev (take this_len cutf)) this_len) = Inr (Some s')"
              by (simp add: smartsplit_while.simps [of R capacity cutf _ _ this_len])
            from "2.IH"(4) [OF run net Inr Some False pos nxt best w] show ?thesis .
          qed
        qed
      qed
    qed
  qed
qed

lemma smartsplit_feasible:
  "0 < capacity \<Longrightarrow> smartsplit R capacity cutf max_parts = Inr (Some s) \<Longrightarrow>
     spec_feasible R False capacity cutf s"
  by (rule smartsplit_feasible_aux)

lemma fastsplit_feasible:
  "fastsplit R capacity cutf collect_net = Inr (Some s) \<Longrightarrow>
     spec_feasible R collect_net capacity cutf s"
  by (auto simp: fastsplit_def split: if_splits intro: fastsplit_while_feasible)

section \<open>Properties of the orchestrator\<close>

lemma fold_max_nonpos:
  "fold (\<lambda>y m. if y > m then y else m) xs (x::real) \<le> 0 \<longleftrightarrow> x \<le> 0 \<and> (\<forall>y \<in> set xs. y \<le> 0)"
  by (induction xs arbitrary: x) auto

lemma py_max_nonpos:
  "py_max c = Inr m \<Longrightarrow> m \<le> 0 \<longleftrightarrow> (\<forall>f \<in> set c. f \<le> 0)"
  by (cases c) (auto simp: fold_max_nonpos)

lemma py_max_Inr: "c \<noteq> [] \<Longrightarrow> \<exists>m. py_max c = Inr m"
  by (cases c) auto


section \<open>Properties of the materialization\<close>

lemma length_accumulate_power [simp]: "length (accumulate_power pwr ts) = Suc (length ts)"
  by (induction ts arbitrary: pwr) simp_all


lemma calc_mass_add_train [simp]: "calc_mass (add_train p t) = calc_mass p + train_mass t"
  by (cases p) (simp_all add: train_mass_def)

lemma calc_tractive_effort_add_train [simp]:
  "calc_tractive_effort (add_train p t) = calc_tractive_effort p + train_tractive_effort t"
  by (cases p) (simp_all add: train_tractive_effort_def)




section \<open>Monotonicity of feasibility\<close>

lemma rounding_exact_fp: "rounding exact_fp"
  by (simp add: rounding_def exact_fp_def)

lemma rounding_one: "rounding R \<Longrightarrow> rnd R 1 = 1"
  by (simp add: rounding_def)

lemma starting_force_divisor:
  assumes r: "rounding R"
  shows "1 \<le> fsqrt R (fadd R (fmul R grade grade) 1)"
proof -
  have "rnd R 0 \<le> rnd R (grade * grade)"
    using r by (rule rounding_mono) simp
  then have "0 \<le> fmul R grade grade" using r by (simp add: fmul_def rounding_zero)
  then have "rnd R 1 \<le> rnd R (fmul R grade grade + 1)"
    using r by (intro rounding_mono) simp_all
  then have a: "1 \<le> fadd R (fmul R grade grade) 1"
    using r by (simp add: fadd_def rounding_one)
  then have "1 \<le> sqrt (fadd R (fmul R grade grade) 1)" by simp
  then have "rnd R 1 \<le> rnd R (sqrt (fadd R (fmul R grade grade) 1))"
    using r by (intro rounding_mono)
  then show ?thesis using r by (simp add: fsqrt_def rounding_one)
qed










text \<open>The factor of the grade in the starting force, without rounding.\<close>

lemma grade_factor_identity:
  fixes a b m :: real
  shows "b * b * ((a - m) * (a - m) + 1) - a * a * ((b - m) * (b - m) + 1) =
         (b - a) * ((m * m + 1) * (a + b) - 2 * m * a * b)"
  by (simp add: algebra_simps)

lemma grade_factor_mono:
  fixes g g' :: real
  assumes le: "g' \<le> g" and bound: "g \<le> 250"
  shows "(g' + 0.004) / sqrt (g' * g' + 1) \<le> (g + 0.004) / sqrt (g * g + 1)"
proof -
  define a where "a = g' + 0.004"
  define b where "b = g + 0.004"
  define A where "A = sqrt (g' * g' + 1)"
  define B where "B = sqrt (g * g + 1)"
  define k :: real where "k = 0.004 * 0.004 + 1"
  have pA: "0 < g' * g' + 1" using zero_le_square [of g'] by linarith
  have pB: "0 < g * g + 1" using zero_le_square [of g] by linarith
  have A: "0 < A" and B: "0 < B" using pA pB by (simp_all add: A_def B_def)
  have A2: "A * A = g' * g' + 1" using pA by (simp add: A_def)
  have B2: "B * B = g * g + 1" using pB by (simp add: B_def)
  have ab: "a \<le> b" using le by (simp add: a_def b_def)
  have key: "(b * A) * (b * A) - (a * B) * (a * B) = (b - a) * (k * (a + b) - 2 * 0.004 * a * b)"
  proof -
    have "(b * A) * (b * A) - (a * B) * (a * B) = b * b * (A * A) - a * a * (B * B)"
      by (simp add: algebra_simps)
    also have "\<dots> = b * b * (g' * g' + 1) - a * a * (g * g + 1)"
      by (simp only: A2 B2)
    also have "\<dots> = b * b * ((a - 0.004) * (a - 0.004) + 1) -
        a * a * ((b - 0.004) * (b - 0.004) + 1)"
      by (simp add: a_def b_def)
    also have "\<dots> = (b - a) * (k * (a + b) - 2 * 0.004 * a * b)"
      unfolding k_def by (rule grade_factor_identity)
    finally show ?thesis .
  qed
  have goal: "a * B \<le> b * A"
  proof (cases "0 \<le> a")
    case True
    with ab have b0: "0 \<le> b" by simp
    have mb: "0.004 * b \<le> k" using bound by (simp add: b_def k_def)
    have ma: "0.004 * a \<le> k" using mb ab by simp
    have "0.004 * b * a \<le> k * a" using mb True by (rule mult_right_mono)
    moreover have "0.004 * a * b \<le> k * b" using ma b0 by (rule mult_right_mono)
    ultimately have "0 \<le> k * (a + b) - 2 * 0.004 * a * b"
      by (simp add: algebra_simps)
    with ab have "0 \<le> (b - a) * (k * (a + b) - 2 * 0.004 * a * b)"
      by (intro mult_nonneg_nonneg) simp_all
    with key have "(a * B) * (a * B) \<le> (b * A) * (b * A)" by simp
    then have "(a * B)\<^sup>2 \<le> (b * A)\<^sup>2" by (simp add: power2_eq_square)
    moreover have "0 \<le> b * A" using b0 A by simp
    ultimately show ?thesis by (rule power2_le_imp_le)
  next
    case False
    then have a0: "a < 0" by simp
    show ?thesis
    proof (cases "0 \<le> b")
      case True
      have "a * B \<le> 0" using a0 B by (simp add: mult_le_0_iff)
      also have "0 \<le> b * A" using True A by simp
      finally show ?thesis .
    next
      case False
      then have b0: "b < 0" by simp
      have k0: "0 < k" by (simp add: k_def)
      have "0 \<le> a * b" using a0 b0 by (simp add: zero_le_mult_iff)
      moreover have "k * (a + b) \<le> 0" using a0 b0 k0 by (simp add: mult_le_0_iff)
      ultimately have "k * (a + b) - 2 * 0.004 * a * b \<le> 0" by (simp add: algebra_simps)
      with ab have "(b - a) * (k * (a + b) - 2 * 0.004 * a * b) \<le> 0"
        by (intro mult_nonneg_nonpos) simp_all
      with key have "(b * A) * (b * A) \<le> (a * B) * (a * B)" by simp
      then have "(- (b * A))\<^sup>2 \<le> (- (a * B))\<^sup>2" by (simp add: power2_eq_square)
      moreover have "0 \<le> - (a * B)" using a0 B by (simp add: mult_le_0_iff)
      ultimately have "- (b * A) \<le> - (a * B)" by (rule power2_le_imp_le)
      then show ?thesis by simp
    qed
  qed
  have "a / A \<le> b / B"
    using goal A B by (simp add: field_simps)
  then show ?thesis by (simp only: a_def b_def A_def B_def)
qed



section \<open>The arithmetic without rounding\<close>

lemma foldl_plus_sum_list: "foldl (+) a xs = a + sum_list (xs :: real list)"
  by (induction xs arbitrary: a) simp_all

lemma exact_fp_ops [simp]:
  "rnd exact_fp x = x"
  "fadd exact_fp x y = x + y"
  "fsub exact_fp x y = x - y"
  "fmul exact_fp x y = x * y"
  "fdiv exact_fp x y = x / y"
  "fsqrt exact_fp x = sqrt x"
  by (simp_all add: exact_fp_def fadd_def fsub_def fmul_def fdiv_def fsqrt_def)

lemma py_sum_exact_fp [simp]: "py_sum exact_fp xs = sum_list xs"
proof -
  have "fadd exact_fp = (+)" by (intro ext) simp
  then show ?thesis by (simp add: py_sum_def foldl_plus_sum_list)
qed

section \<open>Exceptions of the force model\<close>

lemma py_pow2_error: "py_pow2 R x = Inl e \<Longrightarrow> e = OverflowError"
  by (simp add: py_pow2_def split: if_splits)

lemma py_pow2_Inr: "\<bar>sq R x\<bar> \<le> fmax R \<Longrightarrow> py_pow2 R x = Inr (sq R x)"
  by (simp add: py_pow2_def)

lemma py_pow2_Inl: "fmax R < \<bar>sq R x\<bar> \<Longrightarrow> py_pow2 R x = Inl OverflowError"
  by (simp add: py_pow2_def)

lemma maximum_grade_overflow:
  assumes "fmax R < \<bar>sq R (py_train_mass R tr)\<bar> \<or>
           fmax R < \<bar>sq R (py_train_tractive_effort R tr)\<bar>"
  shows "maximum_grade R tr = Inl OverflowError"
proof (cases "fmax R < \<bar>sq R (py_train_mass R tr)\<bar>")
  case True
  then show ?thesis by (simp add: maximum_grade_def Let_def py_pow2_Inl)
next
  case False
  with assms have F: "py_pow2 R (py_train_tractive_effort R tr) = Inl OverflowError"
    by (simp add: py_pow2_Inl)
  from False have M: "py_pow2 R (py_train_mass R tr) = Inr (sq R (py_train_mass R tr))"
    by (simp add: py_pow2_def)
  show ?thesis
  proof (cases "py_pow2 R (rnd R 0.004)")
    case (Inl e)
    with py_pow2_error [OF Inl] M show ?thesis by (simp add: maximum_grade_def Let_def)
  next
    case (Inr k2)
    with M F show ?thesis by (simp add: maximum_grade_def Let_def)
  qed
qed

lemma discriminant_equal:
  assumes r: "rounding R"
  shows "0 \<le> fsub R (fmul R (sq R m) (fadd R (sq R k) 1)) (sq R m)"
proof -
  from r have sqm: "0 \<le> sq R m" "rnd R (sq R m) = sq R m" and sqk: "0 \<le> sq R k"
    by (simp_all add: rounding_def)
  have "rnd R 1 \<le> rnd R (sq R k + 1)" using r sqk by (intro rounding_mono) simp_all
  then have k1: "1 \<le> fadd R (sq R k) 1" using r by (simp add: fadd_def rounding_one)
  have "sq R m * 1 \<le> sq R m * fadd R (sq R k) 1"
    using k1 sqm(1) by (rule mult_left_mono)
  then have le: "sq R m \<le> sq R m * fadd R (sq R k) 1" by simp
  have "rnd R (sq R m) \<le> rnd R (sq R m * fadd R (sq R k) 1)"
    using r le by (rule rounding_mono)
  then have "sq R m \<le> fmul R (sq R m) (fadd R (sq R k) 1)"
    using sqm(2) by (simp add: fmul_def)
  then have "0 \<le> fmul R (sq R m) (fadd R (sq R k) 1) - sq R m" by linarith
  with r have "rnd R 0 \<le> rnd R (fmul R (sq R m) (fadd R (sq R k) 1) - sq R m)"
    by (rule rounding_mono)
  then show ?thesis using r by (simp add: fsub_def rounding_zero)
qed

text \<open>
  Without rounding, lowering the grade below 250 does not increase the starting force
  of a mass that is not negative.
\<close>

lemma starting_force_of_exact_mono:
  assumes "0 \<le> m" and "grade' \<le> grade" and "grade \<le> 250"
  shows "starting_force_of exact_fp m grade' \<le> starting_force_of exact_fp m grade"
proof -
  have "m * ((grade' + 0.004) / sqrt (grade' * grade' + 1)) \<le>
      m * ((grade + 0.004) / sqrt (grade * grade + 1))"
    using grade_factor_mono [OF assms(2,3)] assms(1) by (rule mult_left_mono)
  then show ?thesis by (simp add: starting_force_of_def)
qed

section \<open>The claims of the specification\<close>



text \<open>
  C2. For every capacity greater than 0 and every cut, a split returned by \<open>fastsplit\<close>
  or \<open>smartsplit\<close> is a sequence of positive integers whose sum is the length of the
  cut, and every subcut it induces has a strictly positive net force: the running
  capacity (augmented by the collection rule when \<open>fastsplit\<close> collects, never augmented
  for \<open>smartsplit\<close>) plus the sum of the subcut's forces, computed in floats as the code
  computes them, whatever the rounding is.
\<close>

theorem split_coverage:
  "0 < capacity \<Longrightarrow>
     (fastsplit R capacity cutf collect_net = Inr (Some s) \<longrightarrow>
        (\<forall>l \<in> set s. 0 < l) \<and> sum_list s = length cutf \<and>
        (\<forall>f \<in> set (spec_net_forces R collect_net capacity cutf s). 0 < f)) \<and>
     (smartsplit R capacity cutf max_parts = Inr (Some s') \<longrightarrow>
        (\<forall>l \<in> set s'. 0 < l) \<and> sum_list s' = length cutf \<and>
        (\<forall>f \<in> set (spec_net_forces R False capacity cutf s'). 0 < f))"
  using fastsplit_feasible [of R capacity cutf collect_net s]
    smartsplit_feasible [of capacity R cutf max_parts s']
  unfolding spec_feasible_def by blast

theorem split_coverage_witness:
  "(0::real) < 5 \<and>
   fastsplit exact_fp 5 [-4, 2, -3, -3] True = Inr (Some [2, 2]) \<and>
   spec_feasible exact_fp True 5 [-4, 2, -3, -3] [2, 2] \<and>
   smartsplit exact_fp 5 [-4, 2, -3, -3] 4 = Inr (Some [1, 3]) \<and>
   spec_feasible exact_fp False 5 [-4, 2, -3, -3] [1, 3]"
proof -
  have f: "fastsplit exact_fp 5 [-4, 2, -3, -3] True = Inr (Some [2, 2])"
    by (simp add: fastsplit_def fastsplit_while.simps)
  have s: "smartsplit exact_fp 5 [-4, 2, -3, -3] 4 = Inr (Some [1, 3])"
    by (simp add: smartsplit.simps smartsplit_while.simps)
  from split_coverage [of 5 exact_fp "[-4, 2, -3, -3]" True "[2, 2]" 4 "[1, 3]"] f s
  show ?thesis unfolding spec_feasible_def by simp
qed

text \<open>
  C3. \<open>fastsplit\<close>, once its assertion has passed, returns what its loop returns from
  the whole cut and no splits. The loop returns the splits recorded so far when the cut
  is used up. On a non-empty remaining cut it returns \<open>None\<close> when no prefix of any
  length is feasible; otherwise it takes the largest prefix length \<open>l\<close> with capacity
  plus the sum of the first \<open>l\<close> forces positive, records it, adds the sum of the
  strictly positive forces of that prefix to the capacity exactly when \<open>collect_net\<close>
  is set, and goes on with the cut after the prefix. In particular
  \<open>fastsplit(10, (-3, -3, -3, -3))\<close> without collection returns \<open>(3, 1)\<close>.
\<close>

theorem fastsplit_longest_prefix:
  "fastsplit exact_fp 10 [-3, -3, -3, -3] False = Inr (Some [3, 1]) \<and>
   (0 < capacity \<longrightarrow>
      fastsplit R capacity cutf collect_net =
        Inr (fastsplit_while R capacity cutf collect_net [])) \<and>
   fastsplit_while R capacity [] collect_net splits = Some splits \<and>
   (cutf \<noteq> [] \<longrightarrow>
     ((\<forall>l. 0 < l \<and> l \<le> length cutf \<longrightarrow> \<not> 0 < fadd R capacity (py_sum R (take l cutf))) \<longrightarrow>
        fastsplit_while R capacity cutf collect_net splits = None) \<and>
     (\<forall>l. 0 < l \<and> l \<le> length cutf \<and> 0 < fadd R capacity (py_sum R (take l cutf)) \<and>
          (\<forall>l'. l < l' \<and> l' \<le> length cutf \<longrightarrow>
             \<not> 0 < fadd R capacity (py_sum R (take l' cutf))) \<longrightarrow>
        fastsplit_while R capacity cutf collect_net splits =
          fastsplit_while R
            (if collect_net
             then fadd R capacity (py_sum R (filter (\<lambda>x. x > 0) (take l cutf)))
             else capacity)
            (drop l cutf) collect_net (splits @ [l])))"
proof (intro conjI impI allI)
  show "fastsplit exact_fp 10 [-3, -3, -3, -3] False = Inr (Some [3, 1])"
    by (simp add: fastsplit_def fastsplit_while.simps)
next
  assume "0 < capacity"
  then show "fastsplit R capacity cutf collect_net =
      Inr (fastsplit_while R capacity cutf collect_net [])"
    by (simp add: fastsplit_def)
next
  show "fastsplit_while R capacity [] collect_net splits = Some splits" by simp
next
  assume ne: "cutf \<noteq> []"
    and none: "\<forall>l. 0 < l \<and> l \<le> length cutf \<longrightarrow>
      \<not> 0 < fadd R capacity (py_sum R (take l cutf))"
  from none have "fastsplit_for R capacity cutf (length cutf) = None"
    by (simp add: fastsplit_for_None)
  with ne show "fastsplit_while R capacity cutf collect_net splits = None"
    by (simp add: fastsplit_while.simps [of R capacity cutf])
next
  fix l
  assume ne: "cutf \<noteq> []"
    and l: "0 < l \<and> l \<le> length cutf \<and> 0 < fadd R capacity (py_sum R (take l cutf)) \<and>
          (\<forall>l'. l < l' \<and> l' \<le> length cutf \<longrightarrow>
             \<not> 0 < fadd R capacity (py_sum R (take l' cutf)))"
  from l have "fastsplit_for R capacity cutf (length cutf) = Some l"
    by (intro fastsplit_for_longest) simp_all
  with ne show "fastsplit_while R capacity cutf collect_net splits =
      fastsplit_while R
        (if collect_net
         then fadd R capacity (py_sum R (filter (\<lambda>x. x > 0) (take l cutf)))
         else capacity)
        (drop l cutf) collect_net (splits @ [l])"
    by (simp add: fastsplit_while.simps [of R capacity cutf])
qed

theorem fastsplit_longest_prefix_witness:
  "(0::real) < 5 \<and>
   fastsplit exact_fp 5 [-4, 2, -3, -3] True =
     Inr (fastsplit_while exact_fp 5 [-4, 2, -3, -3] True []) \<and>
   [-4, 2, -3, -3::real] \<noteq> [] \<and>
   fastsplit_while exact_fp 5 [-4, 2, -3, -3] True [] =
     fastsplit_while exact_fp 7 [-3, -3] True [2] \<and>
   [-5::real] \<noteq> [] \<and> fastsplit_while exact_fp 1 [-5] False [] = None"
proof -
  have longest: "\<forall>l'. 2 < l' \<and> l' \<le> length [-4, 2, -3, -3::real] \<longrightarrow>
      \<not> 0 < fadd exact_fp 5 (py_sum exact_fp (take l' [-4, 2, -3, -3::real]))"
  proof (intro allI impI)
    fix l' :: nat
    assume "2 < l' \<and> l' \<le> length [-4, 2, -3, -3::real]"
    then have "l' = 3 \<or> l' = 4" by auto
    then show "\<not> 0 < fadd exact_fp 5 (py_sum exact_fp (take l' [-4, 2, -3, -3::real]))"
      by auto
  qed
  have none: "\<forall>l. 0 < l \<and> l \<le> length [-5::real] \<longrightarrow>
      \<not> 0 < fadd exact_fp 1 (py_sum exact_fp (take l [-5::real]))"
  proof (intro allI impI)
    fix l :: nat
    assume "0 < l \<and> l \<le> length [-5::real]"
    then have "l = 1" by auto
    then show "\<not> 0 < fadd exact_fp 1 (py_sum exact_fp (take l [-5::real]))" by simp
  qed
  note t = fastsplit_longest_prefix [THEN conjunct2]
  from t [THEN conjunct1, rule_format, where capacity = 5 and R = exact_fp
      and cutf = "[-4, 2, -3, -3]" and collect_net = True]
  have a: "fastsplit exact_fp 5 [-4, 2, -3, -3] True =
     Inr (fastsplit_while exact_fp 5 [-4, 2, -3, -3] True [])" by simp
  from t [THEN conjunct2, THEN conjunct2, rule_format, THEN conjunct2, rule_format,
      where capacity = 5 and R = exact_fp and cutf = "[-4, 2, -3, -3]" and l = 2
      and collect_net = True and splits = "[]"] longest
  have b: "fastsplit_while exact_fp 5 [-4, 2, -3, -3] True [] =
     fastsplit_while exact_fp 7 [-3, -3] True [2]"
    by simp
  from t [THEN conjunct2, THEN conjunct2, rule_format, THEN conjunct1, rule_format,
      where capacity = 1 and R = exact_fp and cutf = "[-5]" and collect_net = False
      and splits = "[]"] none
  have c: "fastsplit_while exact_fp 1 [-5] False [] = None" by simp
  from a b c show ?thesis by simp
qed

text \<open>
  C4. For every capacity greater than 0, \<open>smartsplit\<close> on an empty cut returns the empty
  split; on a non-empty cut with \<open>max_parts\<close> at most 0 it returns \<open>None\<close>; on a
  non-empty cut with \<open>max_parts\<close> equal to 1 it returns the single part \<open>(len(cut),)\<close>
  when capacity plus the sum of all forces, as computed in floats, is positive, and
  \<open>None\<close> otherwise.
\<close>

theorem smartsplit_base_cases:
  "0 < capacity \<Longrightarrow>
     smartsplit R capacity [] max_parts = Inr (Some []) \<and>
     (cutf \<noteq> [] \<and> max_parts \<le> 0 \<longrightarrow> smartsplit R capacity cutf max_parts = Inr None) \<and>
     (cutf \<noteq> [] \<and> fadd R capacity (py_sum R cutf) > 0 \<longrightarrow>
        smartsplit R capacity cutf 1 = Inr (Some [length cutf])) \<and>
     (cutf \<noteq> [] \<and> \<not> fadd R capacity (py_sum R cutf) > 0 \<longrightarrow>
        smartsplit R capacity cutf 1 = Inr None)"
  by (simp add: smartsplit.simps)

theorem smartsplit_base_cases_witness:
  "(0::real) < 3 \<and>
     smartsplit exact_fp 3 [] 5 = Inr (Some []) \<and>
     smartsplit exact_fp 3 [1, -2] 0 = Inr None \<and>
     smartsplit exact_fp 3 [1, -2] 1 = Inr (Some [2]) \<and>
     smartsplit exact_fp 3 [1, -5] 1 = Inr None"
  using smartsplit_base_cases [where capacity = 3 and R = exact_fp and max_parts = 0
      and cutf = "[1, -2]"]
    smartsplit_base_cases [where capacity = 3 and R = exact_fp and max_parts = 5
      and cutf = "[1, -5]"]
  by simp

text \<open>
  C5. For every power entity, non-empty cut, grade, \<open>max_power\<close> and \<open>collect_net\<close>
  flag, \<open>compute_split\<close> computes the capacity of the power and the force of every
  member with \<open>net_force_capacity\<close>, and returns \<open>fastsplit\<close> of them with collection
  forced on when every member's force is non-positive or \<open>collect_net\<close> is requested,
  and \<open>smartsplit\<close> of them with \<open>max_parts\<close> the number of units otherwise.
\<close>

theorem compute_split_delegates:
  "cutf \<noteq> [] \<Longrightarrow>
     compute_split R pwr cutf grade max_power collect_net =
       (let p = net_force_capacity R pwr grade max_power;
            c = map (\<lambda>x. net_force_capacity R (Stock x) grade max_power) cutf
        in if (\<forall>f \<in> set c. f \<le> 0) \<or> collect_net then fastsplit R p c True
           else smartsplit R p c (int (length cutf)))"
proof -
  assume ne: "cutf \<noteq> []"
  let ?c = "map (\<lambda>x. net_force_capacity R (Stock x) grade max_power) cutf"
  from ne have "?c \<noteq> []" by simp
  from py_max_Inr [OF this] obtain m where m: "py_max ?c = Inr m" by blast
  have "m \<le> 0 \<longleftrightarrow> (\<forall>f \<in> set ?c. f \<le> 0)" using m by (rule py_max_nonpos)
  with m show ?thesis
    by (simp add: compute_split_def Let_def)
qed

theorem compute_split_delegates_witness:
  "[Car ''a'' 1000, TractiveCar ''b'' 500 10] \<noteq> [] \<and>
   compute_split exact_fp (Stock (TractiveCar ''L'' 1000 50))
       [Car ''a'' 1000, TractiveCar ''b'' 500 10] 0 1 False =
     smartsplit exact_fp 46 [-4, 8] 2 \<and>
   compute_split exact_fp (Stock (TractiveCar ''L'' 1000 50)) [Car ''a'' 1000, Car ''b'' 500]
       0 1 False =
     fastsplit exact_fp 46 [-4, -2] True"
  using compute_split_delegates [of "[Car ''a'' 1000, TractiveCar ''b'' 500 10]" exact_fp
      "Stock (TractiveCar ''L'' 1000 50)" 0 1 False]
    compute_split_delegates [of "[Car ''a'' 1000, Car ''b'' 500]" exact_fp
      "Stock (TractiveCar ''L'' 1000 50)" 0 1 False]
  by (simp add: net_force_capacity_def starting_force_of_def)






text \<open>
  C8 as the specification states it: the degenerate force-model computations return a
  non-finite value that the caller can test. It fails: \<open>starting_power\<close> of a train with
  no tractive effort returns nothing, it raises \<open>ZeroDivisionError\<close>.
\<close>

theorem starting_power_raises_counterexample:
  "starting_power exact_fp [Car ''c'' 1] 0 = Inl ZeroDivisionError \<and>
   (\<nexists>v. starting_power exact_fp [Car ''c'' 1] 0 = Inr v)"
  by (simp add: starting_power_def py_train_tractive_effort_def)

text \<open>
  C8, amended. For an aggregate of finite mass and tractive effort the degenerate
  computations raise: \<open>starting_power\<close> raises \<open>ZeroDivisionError\<close> when the total
  tractive effort is 0; \<open>maximum_grade\<close> raises \<open>OverflowError\<close> when the square of
  the mass or of the tractive effort is out of range; when the squares are in range it
  raises \<open>ValueError\<close> if the discriminant that the code computes, in floats, is
  negative, and \<open>ZeroDivisionError\<close> if the tractive effort equals the mass.
\<close>

theorem degenerate_physics_raises:
  "(py_train_tractive_effort R tr = 0 \<longrightarrow> starting_power R tr grade = Inl ZeroDivisionError) \<and>
   (fmax R < \<bar>sq R (py_train_mass R tr)\<bar> \<or> fmax R < \<bar>sq R (py_train_tractive_effort R tr)\<bar> \<longrightarrow>
      maximum_grade R tr = Inl OverflowError) \<and>
   (\<bar>sq R (py_train_mass R tr)\<bar> \<le> fmax R \<and> \<bar>sq R (rnd R 0.004)\<bar> \<le> fmax R \<and>
    \<bar>sq R (py_train_tractive_effort R tr)\<bar> \<le> fmax R \<and>
    fsub R (fmul R (sq R (py_train_mass R tr)) (fadd R (sq R (rnd R 0.004)) 1))
      (sq R (py_train_tractive_effort R tr)) < 0 \<longrightarrow>
      maximum_grade R tr = Inl ValueError) \<and>
   (rounding R \<and> py_train_tractive_effort R tr = py_train_mass R tr \<and>
    \<bar>sq R (py_train_mass R tr)\<bar> \<le> fmax R \<and> \<bar>sq R (rnd R 0.004)\<bar> \<le> fmax R \<longrightarrow>
      maximum_grade R tr = Inl ZeroDivisionError)"
proof (intro conjI impI)
  show "starting_power R tr grade = Inl ZeroDivisionError"
    if "py_train_tractive_effort R tr = 0"
    using that by (simp add: starting_power_def)
  show "maximum_grade R tr = Inl OverflowError"
    if "fmax R < \<bar>sq R (py_train_mass R tr)\<bar> \<or> fmax R < \<bar>sq R (py_train_tractive_effort R tr)\<bar>"
    using that by (rule maximum_grade_overflow)
  show "maximum_grade R tr = Inl ValueError"
    if "\<bar>sq R (py_train_mass R tr)\<bar> \<le> fmax R \<and> \<bar>sq R (rnd R 0.004)\<bar> \<le> fmax R \<and>
      \<bar>sq R (py_train_tractive_effort R tr)\<bar> \<le> fmax R \<and>
      fsub R (fmul R (sq R (py_train_mass R tr)) (fadd R (sq R (rnd R 0.004)) 1))
        (sq R (py_train_tractive_effort R tr)) < 0"
    using that by (simp add: maximum_grade_def Let_def py_pow2_Inr)
  show "maximum_grade R tr = Inl ZeroDivisionError"
    if a: "rounding R \<and> py_train_tractive_effort R tr = py_train_mass R tr \<and>
      \<bar>sq R (py_train_mass R tr)\<bar> \<le> fmax R \<and> \<bar>sq R (rnd R 0.004)\<bar> \<le> fmax R"
  proof -
    from a have r: "rounding R" by simp
    have d: "\<not> fsub R (fmul R (sq R (py_train_mass R tr)) (fadd R (sq R (rnd R 0.004)) 1))
        (sq R (py_train_mass R tr)) < 0"
      using discriminant_equal [OF r] by (simp add: not_less)
    have z: "fsub R (sq R (py_train_mass R tr)) (sq R (py_train_mass R tr)) = 0"
      using r by (simp add: fsub_def rounding_zero)
    from a d z show ?thesis by (simp add: maximum_grade_def Let_def py_pow2_Inr)
  qed
qed

theorem degenerate_physics_raises_witness:
  "py_train_tractive_effort exact_fp [Car ''c'' 1] = 0 \<and>
   starting_power exact_fp [Car ''c'' 1] 0 = Inl ZeroDivisionError \<and>
   fmax exact_fp < \<bar>sq exact_fp (py_train_mass exact_fp [TractiveCar ''t'' (10 ^ 155) 1])\<bar> \<and>
   maximum_grade exact_fp [TractiveCar ''t'' (10 ^ 155) 1] = Inl OverflowError \<and>
   \<bar>sq exact_fp (py_train_mass exact_fp [TractiveCar ''t'' 1 2])\<bar> \<le> fmax exact_fp \<and>
   \<bar>sq exact_fp (rnd exact_fp 0.004)\<bar> \<le> fmax exact_fp \<and>
   \<bar>sq exact_fp (py_train_tractive_effort exact_fp [TractiveCar ''t'' 1 2])\<bar> \<le> fmax exact_fp \<and>
   fsub exact_fp (fmul exact_fp (sq exact_fp (py_train_mass exact_fp [TractiveCar ''t'' 1 2]))
       (fadd exact_fp (sq exact_fp (rnd exact_fp 0.004)) 1))
     (sq exact_fp (py_train_tractive_effort exact_fp [TractiveCar ''t'' 1 2])) < 0 \<and>
   maximum_grade exact_fp [TractiveCar ''t'' 1 2] = Inl ValueError \<and>
   rounding exact_fp \<and>
   py_train_tractive_effort exact_fp [TractiveCar ''t'' 1 1] =
     py_train_mass exact_fp [TractiveCar ''t'' 1 1] \<and>
   \<bar>sq exact_fp (py_train_mass exact_fp [TractiveCar ''t'' 1 1])\<bar> \<le> fmax exact_fp \<and>
   maximum_grade exact_fp [TractiveCar ''t'' 1 1] = Inl ZeroDivisionError"
proof -
  have sqe: "sq exact_fp x = x * x" and fm: "fmax exact_fp = 10 ^ 308" for x
    by (simp_all add: exact_fp_def)
  have a: "py_train_tractive_effort exact_fp [Car ''c'' 1] = 0"
    by (simp add: py_train_tractive_effort_def)
  have b: "fmax exact_fp <
      \<bar>sq exact_fp (py_train_mass exact_fp [TractiveCar ''t'' (10 ^ 155) 1])\<bar>"
    by (simp add: py_train_mass_def sqe fm flip: power_add)
  have c: "\<bar>sq exact_fp (py_train_mass exact_fp [TractiveCar ''t'' 1 2])\<bar> \<le> fmax exact_fp"
    "\<bar>sq exact_fp (rnd exact_fp 0.004)\<bar> \<le> fmax exact_fp"
    "\<bar>sq exact_fp (py_train_tractive_effort exact_fp [TractiveCar ''t'' 1 2])\<bar> \<le> fmax exact_fp"
    "\<bar>sq exact_fp (py_train_mass exact_fp [TractiveCar ''t'' 1 1])\<bar> \<le> fmax exact_fp"
    by (simp_all add: py_train_mass_def py_train_tractive_effort_def sqe fm)
  have d: "fsub exact_fp
      (fmul exact_fp (sq exact_fp (py_train_mass exact_fp [TractiveCar ''t'' 1 2]))
         (fadd exact_fp (sq exact_fp (rnd exact_fp 0.004)) 1))
      (sq exact_fp (py_train_tractive_effort exact_fp [TractiveCar ''t'' 1 2])) < 0"
    by (simp add: py_train_mass_def py_train_tractive_effort_def sqe)
  have e: "py_train_tractive_effort exact_fp [TractiveCar ''t'' 1 1] =
     py_train_mass exact_fp [TractiveCar ''t'' 1 1]"
    by (simp add: py_train_mass_def py_train_tractive_effort_def)
  from degenerate_physics_raises [of exact_fp "[Car ''c'' 1]" 0] a
  have 1: "starting_power exact_fp [Car ''c'' 1] 0 = Inl ZeroDivisionError" by blast
  from degenerate_physics_raises [of exact_fp "[TractiveCar ''t'' (10 ^ 155) 1]" 0] b
  have 2: "maximum_grade exact_fp [TractiveCar ''t'' (10 ^ 155) 1] = Inl OverflowError"
    by blast
  from degenerate_physics_raises [of exact_fp "[TractiveCar ''t'' 1 2]" 0] c d
  have 3: "maximum_grade exact_fp [TractiveCar ''t'' 1 2] = Inl ValueError" by blast
  from degenerate_physics_raises [of exact_fp "[TractiveCar ''t'' 1 1]" 0] c e
    rounding_exact_fp
  have 4: "maximum_grade exact_fp [TractiveCar ''t'' 1 1] = Inl ZeroDivisionError" by blast
  from a b c d e 1 2 3 4 rounding_exact_fp show ?thesis by blast
qed

text \<open>
  C9. For every cut and every capacity that is not positive, \<open>fastsplit\<close> and
  \<open>smartsplit\<close> both fail their assertion at once: neither a split nor \<open>None\<close> is
  returned.
\<close>

theorem splitters_reject_nonpositive_capacity:
  "capacity \<le> 0 \<Longrightarrow>
     fastsplit R capacity cutf collect_net = Inl AssertionError \<and>
     smartsplit R capacity cutf max_parts = Inl AssertionError"
  by (simp add: fastsplit_def smartsplit.simps)

theorem splitters_reject_nonpositive_capacity_witness:
  "(0::real) \<le> 0 \<and> fastsplit exact_fp 0 [1, 2] True = Inl AssertionError \<and>
     smartsplit exact_fp 0 [1, 2] 2 = Inl AssertionError"
  using splitters_reject_nonpositive_capacity [of 0 exact_fp "[1, 2]" True 2] by simp

text \<open>
  C10. On an empty cut \<open>compute_split\<close> raises (the maximum of no member force, a
  \<open>ValueError\<close>) whatever the other arguments are, although \<open>fastsplit\<close> and
  \<open>smartsplit\<close> both return the empty split on an empty cut.
\<close>

theorem compute_split_empty_cut:
  "compute_split R pwr [] grade max_power collect_net = Inl ValueError \<and>
   (0 < capacity \<longrightarrow>
      fastsplit R capacity [] collect_net = Inr (Some []) \<and>
      smartsplit R capacity [] max_parts = Inr (Some []))"
  by (simp add: compute_split_def fastsplit_def smartsplit.simps)

theorem compute_split_empty_cut_witness:
  "compute_split exact_fp (Stock (TractiveCar ''L'' 1000 50)) [] 0 1 False = Inl ValueError \<and>
   (0::real) < 46 \<and> fastsplit exact_fp 46 [] False = Inr (Some []) \<and>
   smartsplit exact_fp 46 [] 0 = Inr (Some [])"
  using compute_split_empty_cut [of exact_fp "Stock (TractiveCar ''L'' 1000 50)" 0 1 False 46 0]
  by simp

end
